theory Spec2Isabelle
  imports
    Complex_Main
    "HOL-Library.Multiset"
    "HOL-Library.Char_ord"
    "HOL-Library.List_Lexorder"
    "HOL-Library.Product_Lexorder"
    "HOL-Library.Option_ord"
begin

section \<open>The data frames of the pipeline\<close>

text \<open>
  Both scripts work on a pandas data frame with the columns
  \<^verbatim>\<open>TICKER, DATE, Price_Open, Price_Close, Price_High, Price_Low, Volume\<close>.
  A frame is a list of rows; the cell types are parameters of the row type, because the
  same columns hold different things along the pipeline:
  \<^item> after \<^verbatim>\<open>pd.read_csv\<close> in \<^verbatim>\<open>clean_data\<close> a cell may be missing (NaN), the date is
    still text, and a price or volume is a number or, in a column that does not read as
    numbers, text: \<open>raw_row\<close>;
  \<^item> after \<^verbatim>\<open>pd.to_datetime\<close> the date is a timestamp or NaT: \<open>parsed_row\<close>;
  \<^item> the frame that \<^verbatim>\<open>engineer_features\<close> reads is the cleaned file, whose cells are
    all present: \<open>price_record\<close>.
  \<^verbatim>\<open>pd.read_csv\<close> gives a column one type. The tickers of a frame are of a type \<open>'s\<close>
  with a linear order: text, ordered as Python orders strings, when one ticker of the file
  is not a number, and integers when every ticker of the file is a whole number.
  A timestamp is an integer. A number is a real here and an IEEE double in the program:
  \<^verbatim>\<open>clean_data\<close> only compares numbers with zero, which is exact; the four columns of
  \<^verbatim>\<open>engineer_features\<close> are computed here in exact arithmetic, without the rounding,
  the overflow to infinity and the NaN that doubles have.
\<close>

type_synonym date = int

record ('s, 'd, 'n) row =
  TICKER :: 's
  DATE :: 'd
  Price_Open :: 'n
  Price_Close :: 'n
  Price_High :: 'n
  Price_Low :: 'n
  Volume :: 'n

text \<open>
  What a present cell of a price or volume column holds: a number, or the text of the file
  when \<^verbatim>\<open>pd.read_csv\<close> read the column as text. In such a column every present cell is
  text, \<^verbatim>\<open>'184'\<close> as well as \<^verbatim>\<open>'abc'\<close>.
\<close>

datatype cell = Num real | Text string

type_synonym 's raw_row = "('s option, string option, cell option) row"
type_synonym 's parsed_row = "('s option, date option, cell option) row"
type_synonym price_record = "(string, date, real) row"

text \<open>The four columns that \<^verbatim>\<open>engineer_features\<close> appends; NaN is \<open>None\<close>.\<close>

record ('s, 'd, 'n) featured_row = "('s, 'd, 'n) row" +
  Return_1d :: "real option"
  MA_5d :: "real option"
  MA_10d :: "real option"
  Volatility_10d :: "real option"

type_synonym featured_record = "(string, date, real) featured_row"

text \<open>
  How a run ends when it does not write its output: \<^verbatim>\<open>clean_data\<close> logs
  ``Invalid DATE parsing'' and calls \<^verbatim>\<open>sys.exit(1)\<close> (\<open>ParseError\<close>); the comparison
  of a text with zero raises \<^verbatim>\<open>TypeError\<close>, which \<^verbatim>\<open>clean_data\<close> does not catch;
  \<^verbatim>\<open>pd.concat\<close> raises \<^verbatim>\<open>ValueError\<close> on an empty list of frames, and
  \<^verbatim>\<open>engineer_features\<close> does not catch it.
\<close>

datatype error = ParseError | TypeError | ValueError

section \<open>The cleaning stage: \<^verbatim>\<open>clean_data\<close>\<close>

text \<open>
  \<^verbatim>\<open>df['DATE'] = pd.to_datetime(df['DATE'])\<close>: a missing cell becomes NaT, a text that
  parses becomes its timestamp, and one text that does not parse raises, for the whole
  column. How pandas reads one text may depend on the other texts of the column (it can
  take the format of the column from its first text), so the parser, the parameter
  \<open>parse\<close>, is given the texts of the column and then the text to read.
\<close>

definition set_DATE :: "('s, 'd, 'n) row \<Rightarrow> 'e \<Rightarrow> ('s, 'e, 'n) row" where
  "set_DATE r d = \<lparr>TICKER = TICKER r, DATE = d, Price_Open = Price_Open r,
     Price_Close = Price_Close r, Price_High = Price_High r, Price_Low = Price_Low r,
     Volume = Volume r\<rparr>"

fun to_datetime_with :: "(string \<Rightarrow> date option) \<Rightarrow> 's raw_row list \<Rightarrow> error + 's parsed_row list" where
  "to_datetime_with p [] = Inr []"
| "to_datetime_with p (r # rs) =
     (case DATE r of
        None \<Rightarrow>
          (case to_datetime_with p rs of
             Inl e \<Rightarrow> Inl e
           | Inr ps \<Rightarrow> Inr (set_DATE r None # ps))
      | Some s \<Rightarrow>
          (case p s of
             None \<Rightarrow> Inl ParseError
           | Some d \<Rightarrow>
               (case to_datetime_with p rs of
                  Inl e \<Rightarrow> Inl e
                | Inr ps \<Rightarrow> Inr (set_DATE r (Some d) # ps))))"

definition to_datetime ::
  "(string list \<Rightarrow> string \<Rightarrow> date option) \<Rightarrow> 's raw_row list \<Rightarrow> error + 's parsed_row list" where
  "to_datetime parse df = to_datetime_with (parse (List.map_filter DATE df)) df"

text \<open>\<^verbatim>\<open>df.dropna()\<close>: keep the rows with no missing cell in any column.\<close>

definition notna :: "('s option, 'd option, 'n option) row \<Rightarrow> bool" where
  "notna r \<longleftrightarrow> TICKER r \<noteq> None \<and> DATE r \<noteq> None \<and> Price_Open r \<noteq> None \<and>
     Price_Close r \<noteq> None \<and> Price_High r \<noteq> None \<and> Price_Low r \<noteq> None \<and> Volume r \<noteq> None"

definition dropna :: "('s option, 'd option, 'n option) row list \<Rightarrow> ('s option, 'd option, 'n option) row list" where
  "dropna df = filter notna df"

text \<open>
  \<^verbatim>\<open>df = df[df[col] > 0]\<close>. The comparison goes cell by cell: a number is compared, a
  missing cell compares false, and a text raises \<^verbatim>\<open>TypeError\<close>, so the statement raises
  when the column has a text in a row of the frame as it is then, and keeps the rows with
  a positive number otherwise.
\<close>

definition is_text :: "cell option \<Rightarrow> bool" where
  "is_text c = (case c of None \<Rightarrow> False | Some (Num v) \<Rightarrow> False | Some (Text s) \<Rightarrow> True)"

definition gt0 :: "cell option \<Rightarrow> bool" where
  "gt0 c = (case c of None \<Rightarrow> False | Some (Num v) \<Rightarrow> 0 < v | Some (Text s) \<Rightarrow> False)"

definition filter_gt0 ::
  "(('s, 'd, cell option) row \<Rightarrow> cell option) \<Rightarrow> ('s, 'd, cell option) row list \<Rightarrow>
     error + ('s, 'd, cell option) row list" where
  "filter_gt0 col df =
     (if list_ex (\<lambda>r. is_text (col r)) df then Inl TypeError
      else Inr (filter (\<lambda>r. gt0 (col r)) df))"

text \<open>\<^verbatim>\<open>for col in price_cols: df = df[df[col] > 0]\<close>, the first error ending the loop.\<close>

definition price_cols :: "(('s, 'd, cell option) row \<Rightarrow> cell option) list" where
  "price_cols = [Price_Open, Price_Close, Price_High, Price_Low, Volume]"

fun filter_cols ::
  "(('s, 'd, cell option) row \<Rightarrow> cell option) list \<Rightarrow> ('s, 'd, cell option) row list \<Rightarrow>
     error + ('s, 'd, cell option) row list" where
  "filter_cols [] df = Inr df"
| "filter_cols (col # cols) df =
     (case filter_gt0 col df of
        Inl e \<Rightarrow> Inl e
      | Inr df1 \<Rightarrow> filter_cols cols df1)"

definition filter_positive :: "('s, 'd, cell option) row list \<Rightarrow> error + ('s, 'd, cell option) row list" where
  "filter_positive df = filter_cols price_cols df"

text \<open>
  \<^verbatim>\<open>df.sort_values(by=['TICKER', 'DATE'])\<close>: with two key columns pandas sorts
  lexicographically and stably. No key is missing here, after \<open>dropna\<close>.
\<close>

definition sort_values_TICKER_DATE :: "('s::linorder) parsed_row list \<Rightarrow> 's parsed_row list" where
  "sort_values_TICKER_DATE df = sort_key (\<lambda>r. (TICKER r, DATE r)) df"

definition clean_data ::
  "(string list \<Rightarrow> string \<Rightarrow> date option) \<Rightarrow> ('s::linorder) raw_row list \<Rightarrow>
     error + 's parsed_row list" where
  "clean_data parse df =
     (case to_datetime parse df of
        Inl e \<Rightarrow> Inl e
      | Inr df1 \<Rightarrow>
          (case filter_positive (dropna df1) of
             Inl e \<Rightarrow> Inl e
           | Inr df2 \<Rightarrow> Inr (sort_values_TICKER_DATE df2)))"

text \<open>
  The rows that \<open>dropna\<close> and the loop keep when the loop does not raise: no cell
  missing, and a positive number in each of the five columns.
\<close>

definition valid_row :: "('s option, 'd option, cell option) row \<Rightarrow> bool" where
  "valid_row r \<longleftrightarrow> notna r \<and> gt0 (Price_Open r) \<and> gt0 (Price_Close r) \<and>
     gt0 (Price_High r) \<and> gt0 (Price_Low r) \<and> gt0 (Volume r)"

text \<open>
  The frame that \<^verbatim>\<open>clean_data\<close> wrote with \<^verbatim>\<open>df.to_csv\<close>, read again by
  \<^verbatim>\<open>pd.read_csv\<close> in the case that every column is read with the type it had: the
  tickers, prices and volumes come back as they were, the dates are text again, as \<open>fmt\<close>
  prints them. (\<^verbatim>\<open>pd.read_csv\<close> chooses the types anew from the file, so this is one case
  among others; \<open>ex_digits_reread\<close> below is a file where it chooses another type.)
\<close>

definition read_back :: "(date \<Rightarrow> string) \<Rightarrow> 's parsed_row list \<Rightarrow> 's raw_row list" where
  "read_back fmt df = map (\<lambda>r. set_DATE r (map_option fmt (DATE r))) df"

section \<open>The feature stage: \<^verbatim>\<open>engineer_features\<close>\<close>

text \<open>
  \<^verbatim>\<open>df.groupby('TICKER')\<close>, iterated: one pair per ticker of the frame, the tickers
  in ascending order, each with its rows in the order of the frame.
\<close>

definition groupby_TICKER :: "price_record list \<Rightarrow> (string \<times> price_record list) list" where
  "groupby_TICKER df =
     map (\<lambda>ticker. (ticker, filter (\<lambda>r. TICKER r = ticker) df)) (sort (remdups (map TICKER df)))"

text \<open>
  \<^verbatim>\<open>group.sort_values('DATE')\<close>. Rows of one ticker with the same date keep the order
  of the frame here; pandas' default sort for one key column promises no order among
  them.
\<close>

definition sort_values_DATE :: "price_record list \<Rightarrow> price_record list" where
  "sort_values_DATE grp = sort_key DATE grp"

text \<open>
  \<^verbatim>\<open>Series.pct_change()\<close> on a column without missing cells: NaN in the first place,
  then \<open>x\<^sub>i / x\<^sub>i\<^sub>-\<^sub>1 - 1\<close>, in exact arithmetic. (In the program the quotient is a
  rounded double, and an infinity when it is too large or \<open>x\<^sub>i\<^sub>-\<^sub>1\<close> is zero.)
\<close>

fun pct_from :: "real \<Rightarrow> real list \<Rightarrow> real option list" where
  "pct_from prev [] = []"
| "pct_from prev (x # xs) = Some (x / prev - 1) # pct_from x xs"

fun pct_change :: "real list \<Rightarrow> real option list" where
  "pct_change [] = []"
| "pct_change (x # xs) = None # pct_from x xs"

text \<open>
  \<^verbatim>\<open>Series.rolling(window=w)\<close> followed by an aggregate: the window of place \<open>i\<close> is
  the \<open>w\<close> places ending at \<open>i\<close>, and the result is NaN unless the window has \<open>w\<close>
  places and none of them is NaN (\<^verbatim>\<open>min_periods\<close> defaults to the window size).
\<close>

definition rolling :: "nat \<Rightarrow> (real list \<Rightarrow> real) \<Rightarrow> real option list \<Rightarrow> real option list" where
  "rolling w f xs =
     map (\<lambda>i. if i + 1 < w then None else map_option f (those (take w (drop (i + 1 - w) xs))))
       [0..<length xs]"

definition mean :: "real list \<Rightarrow> real" where
  "mean xs = sum_list xs / real (length xs)"

text \<open>\<^verbatim>\<open>.std()\<close>: pandas' default \<^verbatim>\<open>ddof=1\<close>, the divisor is the count less one.\<close>

definition std :: "real list \<Rightarrow> real" where
  "std xs = sqrt (sum_list (map (\<lambda>x. (x - mean xs)\<^sup>2) xs) / (real (length xs) - 1))"

definition with_features ::
  "price_record \<Rightarrow> real option \<Rightarrow> real option \<Rightarrow> real option \<Rightarrow> real option \<Rightarrow> featured_record" where
  "with_features r ret ma5 ma10 vol =
     \<lparr>TICKER = TICKER r, DATE = DATE r, Price_Open = Price_Open r, Price_Close = Price_Close r,
      Price_High = Price_High r, Price_Low = Price_Low r, Volume = Volume r,
      Return_1d = ret, MA_5d = ma5, MA_10d = ma10, Volatility_10d = vol\<rparr>"

text \<open>The body of the loop over the groups: the group's frame with its four new columns.\<close>

definition add_features :: "price_record list \<Rightarrow> featured_record list" where
  "add_features grp0 =
     (let grp = sort_values_DATE grp0;
          closes = map Price_Close grp;
          return_1d = pct_change closes;
          ma_5d = rolling 5 mean (map Some closes);
          ma_10d = rolling 10 mean (map Some closes);
          volatility_10d = rolling 10 std return_1d
      in map (\<lambda>i. with_features (grp ! i) (return_1d ! i) (ma_5d ! i) (ma_10d ! i)
                (volatility_10d ! i)) [0..<length grp])"

definition feature_frames :: "price_record list \<Rightarrow> featured_record list list" where
  "feature_frames df = map (\<lambda>(ticker, grp). add_features grp) (groupby_TICKER df)"

text \<open>\<^verbatim>\<open>pd.concat(frames, ignore_index=True)\<close> raises on an empty list of frames.\<close>

definition pd_concat :: "'a list list \<Rightarrow> error + 'a list" where
  "pd_concat frames = (if frames = [] then Inl ValueError else Inr (concat frames))"

text \<open>
  \<^verbatim>\<open>final_df.dropna()\<close>: the seven columns read from the file have no missing cell, so
  a row goes exactly when one of its new columns is NaN.
\<close>

definition notna_featured :: "featured_record \<Rightarrow> bool" where
  "notna_featured r \<longleftrightarrow> Return_1d r \<noteq> None \<and> MA_5d r \<noteq> None \<and> MA_10d r \<noteq> None \<and>
     Volatility_10d r \<noteq> None"

definition engineer_features :: "price_record list \<Rightarrow> error + featured_record list" where
  "engineer_features df =
     (case pd_concat (feature_frames df) of
        Inl e \<Rightarrow> Inl e
      | Inr final_df \<Rightarrow> Inr (filter notna_featured final_df))"

text \<open>
  A cleaned frame, as \<^verbatim>\<open>engineer_features\<close> reads it: every price and volume is
  positive. The seven original columns of a featured row are \<open>row.truncate\<close> of it.
\<close>

definition cleaned :: "price_record list \<Rightarrow> bool" where
  "cleaned df \<longleftrightarrow> (\<forall>r \<in> set df. 0 < Price_Open r \<and> 0 < Price_Close r \<and> 0 < Price_High r \<and>
     0 < Price_Low r \<and> 0 < Volume r)"

section \<open>Example frames\<close>

text \<open>A date parser that knows two days, whatever the other texts of the column are.\<close>

definition ex_parse :: "string list \<Rightarrow> string \<Rightarrow> date option" where
  "ex_parse column s = (if s = ''2024-01-02'' then Some 19724
     else if s = ''2024-01-03'' then Some 19725 else None)"

text \<open>A row with one cell for the four prices and one for the volume.\<close>

definition mk_row :: "'s \<Rightarrow> 'd \<Rightarrow> 'n \<Rightarrow> 'n \<Rightarrow> ('s, 'd, 'n) row" where
  "mk_row t d p v = \<lparr>TICKER = t, DATE = d, Price_Open = p, Price_Close = p, Price_High = p,
     Price_Low = p, Volume = v\<rparr>"

definition raw :: "'s \<Rightarrow> string \<Rightarrow> real \<Rightarrow> real \<Rightarrow> 's raw_row" where
  "raw t d p v = mk_row (Some t) (Some d) (Some (Num p)) (Some (Num v))"

definition parsed :: "'s \<Rightarrow> date \<Rightarrow> real \<Rightarrow> real \<Rightarrow> 's parsed_row" where
  "parsed t d p v = mk_row (Some t) (Some d) (Some (Num p)) (Some (Num v))"

text \<open>Five raw rows out of order, one with the volume \<open>-5\<close> and one with no price.\<close>

definition ex_raw :: "string raw_row list" where
  "ex_raw =
     [raw ''MSFT'' ''2024-01-03'' 410 1000,
      raw ''AAPL'' ''2024-01-03'' 185 (- 5),
      raw ''MSFT'' ''2024-01-02'' 405 900,
      mk_row (Some ''AAPL'') (Some ''2024-01-02'') None (Some (Num 800)),
      raw ''AAPL'' ''2024-01-02'' 184 700]"

definition ex_cleaned :: "string parsed_row list" where
  "ex_cleaned =
     [parsed ''AAPL'' 19724 184 700,
      parsed ''MSFT'' 19724 405 900,
      parsed ''MSFT'' 19725 410 1000]"

text \<open>The same rows and one more, which has no ticker, no price and a date that is no date.\<close>

definition ex_bad_raw :: "string raw_row list" where
  "ex_bad_raw = ex_raw @ [mk_row None (Some ''yesterday'') None None]"

text \<open>The printer of the two days that \<open>ex_parse\<close> reads.\<close>

definition ex_fmt :: "date \<Rightarrow> string" where
  "ex_fmt d = (if d = 19724 then ''2024-01-02'' else ''2024-01-03'')"

text \<open>
  A date parser that takes the format of the column from its first text, year first or
  month first, and reads every text of the column in that format.
\<close>

definition iso_date :: "string \<Rightarrow> date option" where
  "iso_date s = (if s = ''2024-01-02'' then Some 19724
     else if s = ''2024-01-03'' then Some 19725 else None)"

definition us_date :: "string \<Rightarrow> date option" where
  "us_date s = (if s = ''01/02/2024'' then Some 19724
     else if s = ''01/03/2024'' then Some 19725 else None)"

definition ex_parse_first :: "string list \<Rightarrow> string \<Rightarrow> date option" where
  "ex_parse_first column s =
     (case column of
        [] \<Rightarrow> None
      | first # rest \<Rightarrow>
          if iso_date first \<noteq> None then iso_date s
          else if us_date first \<noteq> None then us_date s
          else None)"

text \<open>Two valid rows whose dates are written in the two formats.\<close>

definition ex_mixed_raw :: "string raw_row list" where
  "ex_mixed_raw =
     [raw ''AAPL'' ''2024-01-02'' 184 700,
      raw ''AAPL'' ''01/03/2024'' 185 800]"

text \<open>
  Two rows of a file whose price columns have the cells \<^verbatim>\<open>abc\<close> and \<^verbatim>\<open>184\<close>: pandas
  reads these columns as text. Both dates parse.
\<close>

definition ex_text_raw :: "string raw_row list" where
  "ex_text_raw =
     [mk_row (Some ''AAPL'') (Some ''2024-01-02'') (Some (Text ''abc'')) (Some (Num 700)),
      mk_row (Some ''AAPL'') (Some ''2024-01-03'') (Some (Text ''184'')) (Some (Num 800))]"

definition ex_text_parsed :: "string parsed_row list" where
  "ex_text_parsed =
     [mk_row (Some ''AAPL'') (Some 19724) (Some (Text ''abc'')) (Some (Num 700)),
      mk_row (Some ''AAPL'') (Some 19725) (Some (Text ''184'')) (Some (Num 800))]"

text \<open>
  A file with the tickers \<^verbatim>\<open>10\<close>, \<^verbatim>\<open>9\<close> and \<^verbatim>\<open>A\<close>, read as text because of the
  \<^verbatim>\<open>A\<close>, whose row has the volume \<open>-5\<close>; and what a first run of \<^verbatim>\<open>clean_data\<close>
  writes for it.
\<close>

definition ex_digits_raw :: "string raw_row list" where
  "ex_digits_raw =
     [raw ''10'' ''2024-01-02'' 1 100,
      raw ''9'' ''2024-01-02'' 1 100,
      raw ''A'' ''2024-01-02'' 1 (- 5)]"

definition ex_digits_cleaned :: "string parsed_row list" where
  "ex_digits_cleaned =
     [parsed ''10'' 19724 1 100,
      parsed ''9'' 19724 1 100]"

text \<open>
  The file of the first run, with the tickers \<^verbatim>\<open>10\<close> and \<^verbatim>\<open>9\<close> in this order, as
  \<^verbatim>\<open>pd.read_csv\<close> reads it for a second run: every ticker is a whole number now, so the
  column is a column of integers. Then what the second run writes.
\<close>

definition ex_digits_reread :: "int raw_row list" where
  "ex_digits_reread =
     [raw 10 ''2024-01-02'' 1 100,
      raw 9 ''2024-01-02'' 1 100]"

definition ex_digits_cleaned_again :: "int parsed_row list" where
  "ex_digits_cleaned_again =
     [parsed 9 19724 1 100,
      parsed 10 19724 1 100]"

text \<open>
  A cleaned frame of two tickers: \<open>AAA\<close> has the eleven closes of the specification on the
  days 0 to 10, given latest first; \<open>BBB\<close> has ten rows, on the days 0 to 9.
\<close>

definition ex_row :: "string \<Rightarrow> date \<times> real \<Rightarrow> price_record" where
  "ex_row t dc = \<lparr>TICKER = t, DATE = fst dc, Price_Open = snd dc, Price_Close = snd dc,
     Price_High = snd dc, Price_Low = snd dc, Volume = 100\<rparr>"

definition ex_AAA :: "price_record list" where
  "ex_AAA = map (ex_row ''AAA'')
     [(10, 14), (9, 13), (8, 12), (7, 11), (6, 10), (5, 9), (4, 10), (3, 11), (2, 12), (1, 11),
      (0, 10)]"

definition ex_BBB :: "price_record list" where
  "ex_BBB = map (ex_row ''BBB'')
     [(0, 20), (1, 21), (2, 22), (3, 21), (4, 20), (5, 19), (6, 20), (7, 21), (8, 22), (9, 23)]"

definition ex_df :: "price_record list" where
  "ex_df = take 5 ex_BBB @ ex_AAA @ drop 5 ex_BBB"

section \<open>Properties of the cleaning stage\<close>

lemma to_datetime_with_eq:
  "to_datetime_with p df =
     (if \<exists>r \<in> set df. \<exists>s. DATE r = Some s \<and> p s = None then Inl ParseError
      else Inr (map (\<lambda>r. set_DATE r (Option.bind (DATE r) p)) df))"
  by (induction df) (auto split: option.splits)

lemma filter_gt0_Inr: "filter_gt0 col df = Inr out \<Longrightarrow> out = filter (\<lambda>r. gt0 (col r)) df"
  by (simp add: filter_gt0_def split: if_splits)

lemma filter_cols_Inr:
  "filter_cols cols df = Inr out \<Longrightarrow> out = filter (\<lambda>r. list_all (\<lambda>col. gt0 (col r)) cols) df"
proof (induction cols arbitrary: df)
  case Nil
  then show ?case by simp
next
  case (Cons col cols)
  from Cons.prems obtain df1 where df1: "filter_gt0 col df = Inr df1"
    and out: "filter_cols cols df1 = Inr out"
    by (auto split: sum.splits)
  have "out = filter (\<lambda>r. list_all (\<lambda>col. gt0 (col r)) cols) (filter (\<lambda>r. gt0 (col r)) df)"
    using Cons.IH [OF out] filter_gt0_Inr [OF df1] by simp
  then show ?case
    by (simp add: conj_commute)
qed

lemma filter_positive_dropna:
  "filter_positive (dropna df) = Inr out \<Longrightarrow> out = filter valid_row df"
proof -
  assume "filter_positive (dropna df) = Inr out"
  then have "out = filter (\<lambda>r. list_all (\<lambda>col. gt0 (col r)) price_cols) (dropna df)"
    unfolding filter_positive_def by (rule filter_cols_Inr)
  then show ?thesis
    by (simp add: dropna_def price_cols_def valid_row_def [abs_def])
qed

lemma clean_data_Inr:
  assumes "clean_data parse df = Inr out"
  shows "\<exists>df1. to_datetime parse df = Inr df1 \<and>
    filter_positive (dropna df1) = Inr (filter valid_row df1) \<and>
    out = sort_key (\<lambda>r. (TICKER r, DATE r)) (filter valid_row df1)"
proof -
  from assms obtain df1 df2 where df1: "to_datetime parse df = Inr df1"
    and df2: "filter_positive (dropna df1) = Inr df2"
    and out: "out = sort_key (\<lambda>r. (TICKER r, DATE r)) df2"
    by (auto simp: clean_data_def sort_values_TICKER_DATE_def split: sum.splits)
  from df2 have "df2 = filter valid_row df1"
    by (rule filter_positive_dropna)
  with df1 df2 out show ?thesis
    by blast
qed


text \<open>
  When every date text parses and no price or volume cell is text, the run returns a
  frame.
\<close>

lemma filter_cols_no_text:
  assumes "\<forall>col \<in> set cols. \<forall>r \<in> set df. \<not> is_text (col r)"
  shows "\<exists>out. filter_cols cols df = Inr out"
  using assms
proof (induction cols arbitrary: df)
  case Nil
  then show ?case by simp
next
  case (Cons col cols)
  have "filter_gt0 col df = Inr (filter (\<lambda>r. gt0 (col r)) df)"
    using Cons.prems by (simp add: filter_gt0_def list_ex_iff)
  moreover have "\<exists>out. filter_cols cols (filter (\<lambda>r. gt0 (col r)) df) = Inr out"
    using Cons.prems by (intro Cons.IH) simp
  ultimately show ?case
    by simp
qed


lemma set_DATE_again: "set_DATE (set_DATE (r :: ('s, 'd, 'n) row) x) (DATE r) = r"
  by (simp add: set_DATE_def)

lemma DATE_set_DATE: "DATE (set_DATE r x) = x"
  by (simp add: set_DATE_def)

lemma valid_row_no_text:
  "valid_row r \<Longrightarrow> \<not> is_text (Price_Open r) \<and> \<not> is_text (Price_Close r) \<and>
     \<not> is_text (Price_High r) \<and> \<not> is_text (Price_Low r) \<and> \<not> is_text (Volume r)"
  by (auto simp: valid_row_def gt0_def is_text_def split: option.splits cell.splits)

section \<open>Series, windows and the frame of one ticker\<close>

lemma length_pct_from: "length (pct_from p xs) = length xs"
  by (induction xs arbitrary: p) auto

lemma length_pct_change: "length (pct_change xs) = length xs"
  by (cases xs) (auto simp: length_pct_from)

lemma nth_pct_from: "i < length xs \<Longrightarrow> pct_from p xs ! i = Some (xs ! i / (p # xs) ! i - 1)"
proof (induction xs arbitrary: p i)
  case Nil
  then show ?case by simp
next
  case (Cons x xs)
  then show ?case by (cases i) auto
qed

lemma nth_pct_change:
  "i < length xs \<Longrightarrow> pct_change xs ! i = (if i = 0 then None else Some (xs ! i / xs ! (i - 1) - 1))"
  by (cases xs; cases i) (auto simp: nth_pct_from)

lemma those_map_Some: "those (map Some xs) = Some xs"
  by (induction xs) auto

lemma those_None: "None \<in> set xs \<Longrightarrow> those xs = None"
  by (induction xs) (auto split: option.splits)

lemma length_rolling: "length (rolling w f xs) = length xs"
  by (simp add: rolling_def)

lemma nth_rolling:
  "i < length xs \<Longrightarrow> rolling w f xs ! i =
     (if i + 1 < w then None else map_option f (those (take w (drop (i + 1 - w) xs))))"
  by (simp add: rolling_def)

lemma take_drop_window:
  "i < length xs \<Longrightarrow> w \<le> Suc i \<Longrightarrow> take w (drop (Suc i - w) xs) = map (\<lambda>j. xs ! j) [Suc i - w..<Suc i]"
  by (rule nth_equalityI) (auto simp del: upt_Suc)

lemma rolling_mean_Some:
  assumes "i < length xs"
  shows "rolling w f (map Some xs) ! i =
     (if i + 1 < w then None else Some (f (map (\<lambda>j. xs ! j) [i + 1 - w..<i + 1])))"
proof (cases "i + 1 < w")
  case True
  then show ?thesis using assms by (simp add: nth_rolling)
next
  case False
  then have w: "w \<le> Suc i" by simp
  have "take w (drop (Suc i - w) (map Some xs)) = map Some (take w (drop (Suc i - w) xs))"
    by (simp add: take_map drop_map)
  also have "\<dots> = map Some (map (\<lambda>j. xs ! j) [Suc i - w..<Suc i])"
    using assms w by (simp only: take_drop_window)
  finally have "those (take w (drop (Suc i - w) (map Some xs))) =
      Some (map (\<lambda>j. xs ! j) [Suc i - w..<Suc i])"
    by (simp only: those_map_Some)
  then show ?thesis
    using assms False by (simp add: nth_rolling del: upt_Suc)
qed

lemma rolling_pct_change:
  assumes "i < length xs" "0 < w"
  shows "rolling w f (pct_change xs) ! i =
     (if i < w then None else Some (f (map (\<lambda>j. xs ! j / xs ! (j - 1) - 1) [i + 1 - w..<i + 1])))"
proof (cases "i + 1 < w")
  case True
  then show ?thesis using assms by (simp add: nth_rolling length_pct_change)
next
  case False
  then have w: "w \<le> i + 1" by simp
  have win: "take w (drop (i + 1 - w) (pct_change xs)) = map (\<lambda>j. pct_change xs ! j) [i + 1 - w..<i + 1]"
    using assms w by (simp add: take_drop_window length_pct_change del: upt_Suc)
  show ?thesis
  proof (cases "i < w")
    case True
    with w have "i + 1 = w" by simp
    then have "pct_change xs ! 0 \<in> set (take w (drop (i + 1 - w) (pct_change xs)))"
      unfolding win using assms by (auto simp add: image_iff simp del: upt_Suc)
    moreover have "pct_change xs ! 0 = None"
      using assms by (cases xs) auto
    ultimately have "those (take w (drop (i + 1 - w) (pct_change xs))) = None"
      by (simp add: those_None)
    then show ?thesis using True assms False by (simp add: nth_rolling length_pct_change)
  next
    case False
    have "map (\<lambda>j. pct_change xs ! j) [i + 1 - w..<i + 1] =
        map Some (map (\<lambda>j. xs ! j / xs ! (j - 1) - 1) [i + 1 - w..<i + 1])"
      using False assms by (auto simp: nth_pct_change simp del: upt_Suc)
    then have "those (take w (drop (i + 1 - w) (pct_change xs))) =
        Some (map (\<lambda>j. xs ! j / xs ! (j - 1) - 1) [i + 1 - w..<i + 1])"
      by (simp only: win those_map_Some)
    then show ?thesis
      using False assms w by (simp add: nth_rolling length_pct_change del: upt_Suc)
  qed
qed

lemma length_add_features: "length (add_features grp) = length grp"
  by (simp add: add_features_def Let_def sort_values_DATE_def)

lemma nth_add_features:
  assumes "i < length grp"
  shows "add_features grp ! i =
    with_features (sort_values_DATE grp ! i)
      (pct_change (map Price_Close (sort_values_DATE grp)) ! i)
      (rolling 5 mean (map Some (map Price_Close (sort_values_DATE grp))) ! i)
      (rolling 10 mean (map Some (map Price_Close (sort_values_DATE grp))) ! i)
      (rolling 10 std (pct_change (map Price_Close (sort_values_DATE grp))) ! i)"
  using assms by (simp add: add_features_def Let_def sort_values_DATE_def)

lemma truncate_with_features: "row.truncate (with_features r a b c d) = r"
  by (simp add: with_features_def row.defs)

lemma sel_with_features:
  "Return_1d (with_features r a b c d) = a"
  "MA_5d (with_features r a b c d) = b"
  "MA_10d (with_features r a b c d) = c"
  "Volatility_10d (with_features r a b c d) = d"
  "TICKER (with_features r a b c d) = TICKER r"
  by (simp_all add: with_features_def)

lemma length_sort_values_DATE: "length (sort_values_DATE grp) = length grp"
  by (simp add: sort_values_DATE_def)

lemma Return_1d_add_features:
  assumes "i < length grp"
  shows "Return_1d (add_features grp ! i) =
    (if 1 \<le> i then Some (Price_Close (sort_values_DATE grp ! i) /
        Price_Close (sort_values_DATE grp ! (i - 1)) - 1) else None)"
  using assms
  by (simp add: nth_add_features sel_with_features nth_pct_change length_sort_values_DATE)

lemma rolling_mean_closes:
  assumes "i < length g" "0 < w"
  shows "rolling w mean (map Some (map Price_Close g)) ! i =
     (if w \<le> i + 1 then Some ((\<Sum>j\<leftarrow>[i + 1 - w..<i + 1]. Price_Close (g ! j)) / real w) else None)"
proof -
  have i: "i < length (map Price_Close g)"
    using assms by simp
  have win: "map (\<lambda>j. map Price_Close g ! j) [i + 1 - w..<i + 1] =
      map (\<lambda>j. Price_Close (g ! j)) [i + 1 - w..<i + 1]"
    using assms by (intro map_cong refl) auto
  have len: "w \<le> i + 1 \<Longrightarrow> length [i + 1 - w..<i + 1] = w"
    by (simp only: length_upt)
  show ?thesis
    unfolding rolling_mean_Some [OF i] win mean_def
    using len assms by (auto simp del: upt_Suc)
qed

lemma MA_add_features:
  assumes "i < length grp"
  shows "MA_5d (add_features grp ! i) =
      (if 4 \<le> i then Some ((\<Sum>j\<leftarrow>[i - 4..<i + 1]. Price_Close (sort_values_DATE grp ! j)) / 5) else None)"
    and "MA_10d (add_features grp ! i) =
      (if 9 \<le> i then Some ((\<Sum>j\<leftarrow>[i - 9..<i + 1]. Price_Close (sort_values_DATE grp ! j)) / 10) else None)"
proof -
  let ?g = "sort_values_DATE grp"
  have i: "i < length ?g"
    using assms by (simp add: length_sort_values_DATE)
  have e5: "i + 1 - 5 = i - 4" and e10: "i + 1 - 10 = i - 9"
    by simp_all
  have c5: "5 \<le> i + 1 \<longleftrightarrow> 4 \<le> i" and c10: "10 \<le> i + 1 \<longleftrightarrow> 9 \<le> i"
    by auto
  show "MA_5d (add_features grp ! i) =
      (if 4 \<le> i then Some ((\<Sum>j\<leftarrow>[i - 4..<i + 1]. Price_Close (?g ! j)) / 5) else None)"
    unfolding nth_add_features [OF assms] sel_with_features
    using rolling_mean_closes [OF i, of 5] unfolding e5 c5 by simp
  show "MA_10d (add_features grp ! i) =
      (if 9 \<le> i then Some ((\<Sum>j\<leftarrow>[i - 9..<i + 1]. Price_Close (?g ! j)) / 10) else None)"
    unfolding nth_add_features [OF assms] sel_with_features
    using rolling_mean_closes [OF i, of 10] unfolding e10 c10 by simp
qed

lemma Volatility_add_features:
  assumes "i < length grp"
  shows "Volatility_10d (add_features grp ! i) =
      (if 10 \<le> i then
         Some (std (map (\<lambda>j. Price_Close (sort_values_DATE grp ! j) /
            Price_Close (sort_values_DATE grp ! (j - 1)) - 1) [i - 9..<i + 1]))
       else None)"
proof -
  let ?g = "sort_values_DATE grp"
  have i: "i < length (map Price_Close ?g)"
    using assms by (simp add: length_sort_values_DATE)
  have e10: "i + 1 - 10 = i - 9"
    by simp
  have win: "map (\<lambda>j. map Price_Close ?g ! j / map Price_Close ?g ! (j - 1) - 1) [i - 9..<i + 1] =
      map (\<lambda>j. Price_Close (?g ! j) / Price_Close (?g ! (j - 1)) - 1) [i - 9..<i + 1]"
    using assms by (intro map_cong refl) (auto simp: length_sort_values_DATE)
  have "rolling 10 std (pct_change (map Price_Close ?g)) ! i =
      (if i < 10 then None else Some (std (map (\<lambda>j. Price_Close (?g ! j) /
         Price_Close (?g ! (j - 1)) - 1) [i - 9..<i + 1])))"
    using rolling_pct_change [OF i, of 10 std] unfolding e10 win by simp
  then show ?thesis
    unfolding nth_add_features [OF assms] sel_with_features by auto
qed

lemma if_Some_None_neq: "((if c then Some a else None) \<noteq> None) = c"
  by simp

lemma notna_featured_add_features:
  assumes "i < length grp"
  shows "notna_featured (add_features grp ! i) \<longleftrightarrow> 10 \<le> i"
proof -
  have "notna_featured (add_features grp ! i) \<longleftrightarrow> 1 \<le> i \<and> 4 \<le> i \<and> 9 \<le> i \<and> 10 \<le> i"
    unfolding notna_featured_def MA_add_features [OF assms] Volatility_add_features [OF assms]
      Return_1d_add_features [OF assms]
    by (simp only: if_Some_None_neq)
  then show ?thesis
    by auto
qed

lemma filter_eq_drop:
  assumes "\<And>i. i < length xs \<Longrightarrow> P (xs ! i) \<longleftrightarrow> n \<le> i"
  shows "filter P xs = drop n xs"
proof -
  have "filter P (take n xs) = []"
    using assms by (auto simp: filter_empty_conv in_set_conv_nth)
  moreover have "filter P (drop n xs) = drop n xs"
    using assms by (auto simp: filter_id_conv in_set_conv_nth)
  ultimately show ?thesis
    by (metis append_Nil append_take_drop_id filter_append)
qed

lemma dropna_add_features: "filter notna_featured (add_features grp) = drop 10 (add_features grp)"
  by (rule filter_eq_drop) (simp add: notna_featured_add_features length_add_features)

lemma truncate_add_features: "map row.truncate (add_features grp) = sort_values_DATE grp"
  by (rule nth_equalityI)
    (simp_all add: length_add_features length_sort_values_DATE nth_add_features truncate_with_features)

lemma TICKER_add_features:
  "r \<in> set (add_features grp) \<Longrightarrow> TICKER r \<in> TICKER ` set grp"
proof -
  assume "r \<in> set (add_features grp)"
  then have "row.truncate r \<in> set (sort_values_DATE grp)"
    using truncate_add_features [of grp] by (metis image_eqI set_map)
  then have "row.truncate r \<in> set grp" by (simp add: sort_values_DATE_def)
  moreover have "TICKER (row.truncate r) = TICKER r" by (simp add: row.defs)
  ultimately show ?thesis by (metis image_eqI)
qed

section \<open>The whole feature stage\<close>

lemma feature_frames_eq:
  "feature_frames df =
     map (\<lambda>t. add_features (filter (\<lambda>r. TICKER r = t) df)) (sort (remdups (map TICKER df)))"
  by (simp add: feature_frames_def groupby_TICKER_def comp_def)

lemma tickers_empty: "sort (remdups (map TICKER df)) = [] \<longleftrightarrow> df = []"
  by (metis length_0_conv length_sort map_is_Nil_conv remdups_eq_nil_iff)

lemma engineer_features_eq:
  "engineer_features df =
     (if df = [] then Inl ValueError
      else Inr (concat (map (\<lambda>t. drop 10 (add_features (filter (\<lambda>r. TICKER r = t) df)))
                  (sort (remdups (map TICKER df))))))"
proof (cases "df = []")
  case True
  then show ?thesis
    by (simp add: engineer_features_def pd_concat_def feature_frames_eq)
next
  case False
  then have "feature_frames df \<noteq> []"
    by (simp add: feature_frames_eq tickers_empty)
  then show ?thesis
    using False
    by (simp add: engineer_features_def pd_concat_def filter_concat feature_frames_eq comp_def
        dropna_add_features)
qed

lemma filter_concat_groups:
  assumes "distinct ks" "\<And>k r. k \<in> set ks \<Longrightarrow> r \<in> set (F k) \<Longrightarrow> key r = k"
  shows "filter (\<lambda>r. key r = t) (concat (map F ks)) = (if t \<in> set ks then F t else [])"
  using assms
proof (induction ks)
  case Nil
  then show ?case by simp
next
  case (Cons k ks)
  have here: "filter (\<lambda>r. key r = t) (F k) = (if t = k then F k else [])"
    using Cons.prems(2) [of k] by (auto simp: filter_id_conv filter_empty_conv)
  have rest: "filter (\<lambda>r. key r = t) (concat (map F ks)) = (if t \<in> set ks then F t else [])"
    using Cons by simp
  show ?case
    using here rest Cons.prems(1) by auto
qed

lemma TICKER_drop_add_features:
  assumes "r \<in> set (drop 10 (add_features (filter (\<lambda>r. TICKER r = t) df)))"
  shows "TICKER r = t"
  using TICKER_add_features [of r "filter (\<lambda>r. TICKER r = t) df"] assms
  by (auto dest: in_set_dropD)

lemma engineer_features_ticker:
  assumes "engineer_features df = Inr out"
  shows "filter (\<lambda>r. TICKER r = t) out = drop 10 (add_features (filter (\<lambda>r. TICKER r = t) df))"
proof -
  from assms have ne: "df \<noteq> []" and out: "out = concat (map (\<lambda>t. drop 10 (add_features (filter (\<lambda>r. TICKER r = t) df)))
                  (sort (remdups (map TICKER df))))"
    by (auto simp: engineer_features_eq split: if_splits)
  have "filter (\<lambda>r. TICKER r = t) out =
      (if t \<in> set (sort (remdups (map TICKER df)))
       then drop 10 (add_features (filter (\<lambda>r. TICKER r = t) df)) else [])"
    unfolding out
    by (rule filter_concat_groups) (auto dest: TICKER_drop_add_features)
  moreover have "filter (\<lambda>r. TICKER r = t) df = []" if "t \<notin> set (sort (remdups (map TICKER df)))"
    using that by (auto simp: filter_empty_conv)
  moreover have "add_features [] = []"
    by (simp add: add_features_def sort_values_DATE_def)
  ultimately show ?thesis
    by auto
qed

lemma mset_concat_groups:
  assumes "distinct ks"
  shows "mset (concat (map (\<lambda>t. filter (\<lambda>r. key r = t) xs) ks)) = mset (filter (\<lambda>r. key r \<in> set ks) xs)"
  using assms
proof (induction ks)
  case Nil
  then show ?case by simp
next
  case (Cons k ks)
  have "mset (filter (\<lambda>r. key r = k) xs) + mset (filter (\<lambda>r. key r \<in> set ks) xs) =
      mset (filter (\<lambda>r. key r \<in> set (k # ks)) xs)"
    using Cons.prems by (induction xs) auto
  then show ?case
    using Cons by simp
qed

lemma mset_concat_mono:
  assumes "\<And>k. k \<in> set ks \<Longrightarrow> mset (G k) \<subseteq># mset (H k)"
  shows "mset (concat (map G ks)) \<subseteq># mset (concat (map H ks))"
  using assms by (induction ks) (auto intro: subset_mset.add_mono)

lemma engineer_features_subset:
  assumes "engineer_features df = Inr out"
  shows "mset (map row.truncate out) \<subseteq># mset df"
proof -
  let ?ks = "sort (remdups (map TICKER df))"
  from assms have out: "out = concat (map (\<lambda>t. drop 10 (add_features (filter (\<lambda>r. TICKER r = t) df))) ?ks)"
    by (auto simp: engineer_features_eq split: if_splits)
  have trunc: "map row.truncate out =
      concat (map (\<lambda>t. drop 10 (sort_values_DATE (filter (\<lambda>r. TICKER r = t) df))) ?ks)"
    unfolding out by (simp add: map_concat comp_def drop_map [symmetric] truncate_add_features)
  have sub: "mset (drop 10 (sort_values_DATE grp)) \<subseteq># mset grp" for grp :: "price_record list"
  proof -
    have "mset (drop 10 (sort_values_DATE grp)) \<subseteq># mset (sort_values_DATE grp)"
      by (metis append_take_drop_id mset_subset_eq_add_right mset_append)
    then show ?thesis by (simp add: sort_values_DATE_def)
  qed
  have "mset (map row.truncate out) \<subseteq>#
      mset (concat (map (\<lambda>t. filter (\<lambda>r. TICKER r = t) df) ?ks))"
    unfolding trunc by (rule mset_concat_mono) (rule sub)
  also have "\<dots> = mset (filter (\<lambda>r. TICKER r \<in> set ?ks) df)"
    by (rule mset_concat_groups) simp
  also have "\<dots> = mset df"
    by simp
  finally show ?thesis .
qed

section \<open>The example frames, evaluated\<close>

lemmas ex_clean_defs = ex_parse_def mk_row_def raw_def parsed_def ex_raw_def ex_cleaned_def
  ex_bad_raw_def ex_text_raw_def ex_text_parsed_def ex_digits_raw_def ex_digits_cleaned_def
  ex_digits_reread_def ex_digits_cleaned_again_def ex_fmt_def iso_date_def us_date_def
  ex_parse_first_def ex_mixed_raw_def

lemmas clean_data_defs = clean_data_def to_datetime_def set_DATE_def dropna_def notna_def
  filter_positive_def price_cols_def filter_gt0_def is_text_def gt0_def
  sort_values_TICKER_DATE_def

lemmas ex_df_defs = ex_df_def ex_AAA_def ex_BBB_def ex_row_def

lemma clean_data_ex_raw: "clean_data ex_parse ex_raw = Inr ex_cleaned"
  by (simp add: clean_data_defs ex_clean_defs)

lemma cleaned_ex_df: "cleaned ex_df"
  by (simp add: cleaned_def ex_df_defs)

lemma AAA_in_ex_df: "''AAA'' \<in> TICKER ` set ex_df"
  by (simp add: ex_df_defs)

lemma length_AAA: "length (filter (\<lambda>r. TICKER r = ''AAA'') ex_df) = 11"
  by (simp add: ex_df_defs)

lemma ex_df_not_empty: "ex_df \<noteq> []"
  by (simp add: ex_df_defs)

lemma length_frame_AAA: "length (add_features (filter (\<lambda>r. TICKER r = ''AAA'') ex_df)) = 11"
  by (simp add: length_add_features length_AAA)

lemma engineer_features_ex_df_row:
  assumes "engineer_features ex_df = Inr out"
  shows "\<exists>r. r \<in> set out"
proof -
  have "length (filter (\<lambda>r. TICKER r = ''AAA'') out) = 1"
    by (simp add: engineer_features_ticker [OF assms] length_frame_AAA)
  then have "filter (\<lambda>r. TICKER r = ''AAA'') out \<noteq> []"
    by auto
  then show ?thesis
    by (auto simp: filter_empty_conv)
qed

section \<open>The claims about the cleaning stage\<close>

text \<open>
  C5: when \<^verbatim>\<open>clean_data\<close> returns a frame, the frame is in ascending order of the pair
  (ticker, date), and the rows with one and the same pair stand in the order in which they
  stood among the rows that survived the two filters, that is in the order of the input:
  the sort is stable.
\<close>

theorem C5_sorted_stable:
  assumes "clean_data parse df = Inr out"
  shows "sorted (map (\<lambda>r. (TICKER r, DATE r)) out) \<and>
    (\<exists>df1 df2. to_datetime parse df = Inr df1 \<and> filter_positive (dropna df1) = Inr df2 \<and>
       (\<forall>k. filter (\<lambda>r. (TICKER r, DATE r) = k) out =
            filter (\<lambda>r. (TICKER r, DATE r) = k) df2))"
proof -
  from assms obtain df1 df2 where df1: "to_datetime parse df = Inr df1"
    and df2: "filter_positive (dropna df1) = Inr df2"
    and out: "out = sort_key (\<lambda>r. (TICKER r, DATE r)) df2"
    by (auto simp: clean_data_def sort_values_TICKER_DATE_def split: sum.splits)
  have "sorted (map (\<lambda>r. (TICKER r, DATE r)) out)"
    unfolding out by (rule sorted_sort_key)
  moreover have "filter (\<lambda>r. (TICKER r, DATE r) = k) out =
      filter (\<lambda>r. (TICKER r, DATE r) = k) df2" for k
    unfolding out by (rule sort_key_stable)
  ultimately show ?thesis
    using df1 df2 by blast
qed

theorem C5_sorted_stable_witness:
  "clean_data ex_parse ex_raw = Inr ex_cleaned \<and>
   sorted (map (\<lambda>r. (TICKER r, DATE r)) ex_cleaned) \<and>
   filter (\<lambda>r. (TICKER r, DATE r) = (Some ''MSFT'', Some 19724)) ex_cleaned =
     [parsed ''MSFT'' 19724 405 900]"
proof -
  have "filter (\<lambda>r. (TICKER r, DATE r) = (Some ''MSFT'', Some 19724)) ex_cleaned =
      [parsed ''MSFT'' 19724 405 900]"
    by (simp add: ex_clean_defs)
  then show ?thesis
    using C5_sorted_stable [OF clean_data_ex_raw] clean_data_ex_raw by simp
qed

text \<open>
  C6: every row of the frame that \<^verbatim>\<open>clean_data\<close> returns has all seven cells present
  and a number greater than zero as its open, close, high, low and volume; the frame holds
  exactly the rows of the parsed input that are so, each as often as the input has it, so
  that a row with a missing cell or with a price or volume that is not positive is not in
  it.
\<close>

theorem C6_positive_notnull:
  assumes "clean_data parse df = Inr out"
  shows "(\<forall>r \<in> set out. \<exists>t d po pc ph pl v.
        r = \<lparr>TICKER = Some t, DATE = Some d, Price_Open = Some (Num po),
             Price_Close = Some (Num pc), Price_High = Some (Num ph),
             Price_Low = Some (Num pl), Volume = Some (Num v)\<rparr> \<and>
        0 < po \<and> 0 < pc \<and> 0 < ph \<and> 0 < pl \<and> 0 < v) \<and>
    (\<exists>df1. to_datetime parse df = Inr df1 \<and> mset out = filter_mset valid_row (mset df1) \<and>
       (\<forall>r \<in> set df1. \<not> valid_row r \<longrightarrow> r \<notin> set out))"
proof -
  from clean_data_Inr [OF assms] obtain df1 where df1: "to_datetime parse df = Inr df1"
    and out: "out = sort_key (\<lambda>r. (TICKER r, DATE r)) (filter valid_row df1)"
    by blast
  have "\<exists>t d po pc ph pl v.
        r = \<lparr>TICKER = Some t, DATE = Some d, Price_Open = Some (Num po),
             Price_Close = Some (Num pc), Price_High = Some (Num ph),
             Price_Low = Some (Num pl), Volume = Some (Num v)\<rparr> \<and>
        0 < po \<and> 0 < pc \<and> 0 < ph \<and> 0 < pl \<and> 0 < v" if "r \<in> set out" for r
  proof -
    from that have v: "valid_row r"
      by (simp add: out)
    then obtain t d where keys: "TICKER r = Some t" "DATE r = Some d"
      by (auto simp: valid_row_def notna_def)
    have num: "\<exists>x. c = Some (Num x) \<and> 0 < x" if "gt0 c" for c
      using that by (auto simp: gt0_def split: option.splits cell.splits)
    from v obtain po pc ph pl vo where cells:
      "Price_Open r = Some (Num po)" "0 < po" "Price_Close r = Some (Num pc)" "0 < pc"
      "Price_High r = Some (Num ph)" "0 < ph" "Price_Low r = Some (Num pl)" "0 < pl"
      "Volume r = Some (Num vo)" "0 < vo"
      unfolding valid_row_def by (metis num)
    have "r = \<lparr>TICKER = Some t, DATE = Some d, Price_Open = Some (Num po),
             Price_Close = Some (Num pc), Price_High = Some (Num ph),
             Price_Low = Some (Num pl), Volume = Some (Num vo)\<rparr>"
      using keys cells by (cases r) simp
    with cells show ?thesis
      by blast
  qed
  moreover have "mset out = filter_mset valid_row (mset df1)"
    by (simp add: out)
  moreover have "\<forall>r \<in> set df1. \<not> valid_row r \<longrightarrow> r \<notin> set out"
    by (simp add: out)
  ultimately show ?thesis
    using df1 by blast
qed

theorem C6_positive_notnull_witness:
  "clean_data ex_parse ex_raw = Inr ex_cleaned \<and>
   parsed ''AAPL'' 19724 184 700 \<in> set ex_cleaned \<and>
   (\<exists>t d po pc ph pl v.
      parsed ''AAPL'' 19724 184 700 =
        \<lparr>TICKER = Some t, DATE = Some d, Price_Open = Some (Num po),
         Price_Close = Some (Num pc), Price_High = Some (Num ph),
         Price_Low = Some (Num pl), Volume = Some (Num v)\<rparr> \<and>
      0 < po \<and> 0 < pc \<and> 0 < ph \<and> 0 < pl \<and> 0 < v)"
proof -
  have mem: "parsed ''AAPL'' 19724 184 700 \<in> set ex_cleaned"
    by (simp add: ex_cleaned_def)
  show ?thesis
    using C6_positive_notnull [OF clean_data_ex_raw] mem clean_data_ex_raw by blast
qed




text \<open>
  C9 as it is stated does not hold. The first run on a file with the tickers 10, 9 and A
  drops the row of A and writes 10 before 9, the order of the texts; the second run reads
  the two tickers of that file as integers and writes 9 before 10.
\<close>

theorem C9_as_stated_counterexample:
  "clean_data ex_parse ex_digits_raw = Inr ex_digits_cleaned \<and>
   map TICKER ex_digits_cleaned = [Some ''10'', Some ''9''] \<and>
   clean_data ex_parse ex_digits_reread = Inr ex_digits_cleaned_again \<and>
   map TICKER ex_digits_cleaned_again = [Some 9, Some 10]"
  by (simp add: clean_data_defs ex_clean_defs)

text \<open>
  C9, amended: cleaning is idempotent when the second run reads the cleaned file as the
  first run wrote it. When \<^verbatim>\<open>clean_data\<close> has returned a frame and that frame is read
  back with its tickers, prices and volumes as they were and with each date parsed back
  from its printed text, a second run returns the same frame: no row is dropped and none
  moves.
\<close>

theorem C9_idempotent_read_back:
  assumes "clean_data parse df = Inr out"
    and "\<forall>r \<in> set out. \<forall>d. DATE r = Some d \<longrightarrow>
      parse (List.map_filter DATE (read_back fmt out)) (fmt d) = Some d"
  shows "clean_data parse (read_back fmt out) = Inr out"
proof -
  let ?p = "parse (List.map_filter DATE (read_back fmt out))"
  from clean_data_Inr [OF assms(1)] obtain df1
    where out: "out = sort_key (\<lambda>r. (TICKER r, DATE r)) (filter valid_row df1)"
    by blast
  have valid: "\<forall>r \<in> set out. valid_row r"
    by (simp add: out)
  have srt: "sorted (map (\<lambda>r. (TICKER r, DATE r)) out)"
    by (simp add: out)
  have rt: "map (\<lambda>r. set_DATE r (Option.bind (DATE r) ?p)) (read_back fmt out) = out"
  proof -
    have "map ((\<lambda>r. set_DATE r (Option.bind (DATE r) ?p)) \<circ>
        (\<lambda>r. set_DATE r (map_option fmt (DATE r)))) out = out"
    proof (rule map_idI)
      fix r assume r: "r \<in> set out"
      have "Option.bind (map_option fmt (DATE r)) ?p = DATE r"
        using assms(2) r by (cases "DATE r") auto
      then show "((\<lambda>r. set_DATE r (Option.bind (DATE r) ?p)) \<circ>
          (\<lambda>r. set_DATE r (map_option fmt (DATE r)))) r = r"
        by (simp add: DATE_set_DATE set_DATE_again)
    qed
    then show ?thesis
      by (simp add: read_back_def)
  qed
  have noerr: "\<not> (\<exists>r \<in> set (read_back fmt out). \<exists>s. DATE r = Some s \<and> ?p s = None)"
    using assms(2) by (auto simp: read_back_def DATE_set_DATE)
  have parse2: "to_datetime parse (read_back fmt out) = Inr out"
    unfolding to_datetime_def to_datetime_with_eq using noerr rt by simp
  have keep: "filter valid_row out = out"
    using valid by simp
  have "dropna out = out"
    using valid by (simp add: dropna_def valid_row_def)
  moreover have "\<forall>col \<in> set price_cols. \<forall>r \<in> set out. \<not> is_text (col r)"
    using valid valid_row_no_text by (auto simp: price_cols_def)
  then obtain df2 where "filter_positive out = Inr df2"
    unfolding filter_positive_def using filter_cols_no_text by blast
  ultimately have "filter_positive (dropna out) = Inr out"
    using filter_positive_dropna [of out df2] keep by simp
  moreover have "sort_key (\<lambda>r. (TICKER r, DATE r)) out = out"
    using srt by (rule sort_key_id_if_sorted)
  ultimately show ?thesis
    using parse2 by (simp add: clean_data_def sort_values_TICKER_DATE_def)
qed

theorem C9_idempotent_read_back_witness:
  "clean_data ex_parse ex_raw = Inr ex_cleaned \<and>
   clean_data ex_parse (read_back ex_fmt ex_cleaned) = Inr ex_cleaned"
proof -
  have dates: "\<forall>r \<in> set ex_cleaned. \<forall>d. DATE r = Some d \<longrightarrow>
      ex_parse (List.map_filter DATE (read_back ex_fmt ex_cleaned)) (ex_fmt d) = Some d"
    by (simp add: ex_clean_defs read_back_def set_DATE_def)
  show ?thesis
    using C9_idempotent_read_back [OF clean_data_ex_raw dates] clean_data_ex_raw by simp
qed

section \<open>The claims about the feature stage\<close>

text \<open>
  C4, as far as it holds: \<^verbatim>\<open>clean_data\<close> turns the empty frame into the empty frame. On
  the empty frame \<^verbatim>\<open>engineer_features\<close> returns nothing: the loop over the groups runs
  no round, the list of frames stays empty and \<^verbatim>\<open>pd.concat\<close> raises \<^verbatim>\<open>ValueError\<close>.
\<close>

theorem C4_empty_input:
  "clean_data parse [] = Inr [] \<and> engineer_features [] = Inl ValueError"
  by (simp add: clean_data_defs List.map_filter_simps engineer_features_def feature_frames_def
      groupby_TICKER_def pd_concat_def)

text \<open>
  C8: for a ticker of a cleaned frame, the rows of that ticker in the result of
  \<^verbatim>\<open>engineer_features\<close> on the whole frame are the result of \<^verbatim>\<open>engineer_features\<close> on
  the rows of that ticker alone, wherever the rows of the other tickers stand in the frame.
\<close>

theorem C8_ticker_independence:
  assumes "cleaned df" and "t \<in> TICKER ` set df"
  shows "\<exists>out alone. engineer_features df = Inr out \<and>
     engineer_features (filter (\<lambda>r. TICKER r = t) df) = Inr alone \<and>
     filter (\<lambda>r. TICKER r = t) out = alone"
proof -
  let ?grp = "filter (\<lambda>r. TICKER r = t) df"
  from assms(2) have "df \<noteq> []" and ne: "?grp \<noteq> []"
    by (auto simp: filter_empty_conv)
  then obtain out alone where out: "engineer_features df = Inr out"
    and alone: "engineer_features ?grp = Inr alone"
    by (simp add: engineer_features_eq)
  have "TICKER r = t" if "r \<in> set alone" for r
  proof -
    from engineer_features_subset [OF alone] have "set (map row.truncate alone) \<subseteq> set ?grp"
      by (metis set_mset_mono set_mset_mset)
    with that have "row.truncate r \<in> set ?grp"
      by auto
    moreover have "TICKER (row.truncate r) = TICKER r"
      by (simp add: row.defs)
    ultimately show ?thesis
      by simp
  qed
  then have "filter (\<lambda>r. TICKER r = t) alone = alone"
    by (simp add: filter_id_conv)
  moreover have "filter (\<lambda>r. TICKER r = t) alone = drop 10 (add_features ?grp)"
    using engineer_features_ticker [OF alone, of t] by simp
  ultimately have "filter (\<lambda>r. TICKER r = t) out = alone"
    using engineer_features_ticker [OF out, of t] by simp
  with out alone show ?thesis
    by blast
qed

theorem C8_ticker_independence_witness:
  "\<exists>out alone. engineer_features ex_df = Inr out \<and>
     engineer_features (filter (\<lambda>r. TICKER r = ''AAA'') ex_df) = Inr alone \<and>
     filter (\<lambda>r. TICKER r = ''AAA'') out = alone"
  using C8_ticker_independence [OF cleaned_ex_df AAA_in_ex_df] .

text \<open>
  C10: the seven original columns of the rows that \<^verbatim>\<open>engineer_features\<close> returns for a
  cleaned frame are rows of the input, each taken at most as often as the input has it: no
  row is changed and none is repeated. Each returned row is such a row with its four new
  columns, all present.
\<close>

theorem C10_original_fields:
  assumes "cleaned df" and "engineer_features df = Inr out"
  shows "mset (map row.truncate out) \<subseteq># mset df \<and>
     (\<forall>r \<in> set out. \<exists>ret ma5 ma10 vol.
        r = with_features (row.truncate r) (Some ret) (Some ma5) (Some ma10) (Some vol))"
proof -
  have "\<exists>ret ma5 ma10 vol.
        r = with_features (row.truncate r) (Some ret) (Some ma5) (Some ma10) (Some vol)"
    if "r \<in> set out" for r
  proof -
    from that assms(2) have "notna_featured r"
      by (auto simp: engineer_features_def pd_concat_def split: if_splits)
    then obtain ret ma5 ma10 vol where "Return_1d r = Some ret" "MA_5d r = Some ma5"
      "MA_10d r = Some ma10" "Volatility_10d r = Some vol"
      by (auto simp: notna_featured_def)
    then have "r = with_features (row.truncate r) (Some ret) (Some ma5) (Some ma10) (Some vol)"
      by (cases r) (simp add: with_features_def row.defs)
    then show ?thesis by blast
  qed
  then show ?thesis
    using engineer_features_subset [OF assms(2)] by blast
qed

theorem C10_original_fields_witness:
  "\<exists>out r. engineer_features ex_df = Inr out \<and> r \<in> set out \<and>
     mset (map row.truncate out) \<subseteq># mset ex_df \<and>
     (\<exists>ret ma5 ma10 vol.
        r = with_features (row.truncate r) (Some ret) (Some ma5) (Some ma10) (Some vol))"
proof -
  obtain out where out: "engineer_features ex_df = Inr out"
    using ex_df_not_empty by (simp add: engineer_features_eq)
  then obtain r where r: "r \<in> set out"
    using engineer_features_ex_df_row by blast
  show ?thesis
    using C10_original_fields [OF cleaned_ex_df out] out r by blast
qed

end
